theory Spec2Isabelle
  imports
    Main
    "HOL-Library.AList"
    "HOL-Library.List_Lexorder"
    "HOL-Library.Sublist"
    "HOL-Library.Multiset"
begin

section \<open>Strings\<close>

text \<open>
  A JavaScript string is modelled as the list of code points that \<^verbatim>\<open>for (const ch of s)\<close>
  yields, each a natural number; the empty string is the empty list, \<^verbatim>\<open>!s\<close> is
  \<open>s = []\<close>, and \<^verbatim>\<open>prefix + k\<close> appends one code point.

  \<^verbatim>\<open>Object.keys(node.children).sort()\<close> has no comparator, so the keys (one code point each)
  are compared as strings, code unit by code unit of their UTF-16 form. \<open>utf16\<close> gives that
  form: one unit inside the Basic Multilingual Plane, a surrogate pair above it.
\<close>

type_synonym jsstring = "nat list"

definition utf16 :: "nat \<Rightarrow> nat list" where
  "utf16 c = (if c < 0x10000 then [c]
              else [0xD800 + (c - 0x10000) div 0x400, 0xDC00 + (c - 0x10000) mod 0x400])"

text \<open>
  \<^verbatim>\<open>String.prototype.toLowerCase\<close> belongs to the host, not to the repository. Every function
  that calls it takes the case mapping as its first argument \<open>lc\<close>, and every theorem below
  holds for any such mapping. Closed examples use \<open>ascii_lower\<close>, which agrees with the host's
  function on the strings they mention; \<open>str\<close> writes an ASCII literal as a \<open>jsstring\<close>.
\<close>

definition str :: "string \<Rightarrow> jsstring" where
  "str s = map of_char s"

definition ascii_lower :: "jsstring \<Rightarrow> jsstring" where
  "ascii_lower s = map (\<lambda>c. if 65 \<le> c \<and> c \<le> 90 then c + 32 else c) s"

text \<open>
  The characters that \<^verbatim>\<open>trim()\<close> strips and that the white-space class of a regular expression matches:
  ECMAScript's WhiteSpace and LineTerminator.
\<close>

definition is_space :: "nat \<Rightarrow> bool" where
  "is_space c = (c \<in> {0x09, 0x0A, 0x0B, 0x0C, 0x0D, 0x20, 0xA0, 0x1680, 0x2028, 0x2029,
                       0x202F, 0x205F, 0x3000, 0xFEFF} \<or> (0x2000 \<le> c \<and> c \<le> 0x200A))"

definition trim :: "jsstring \<Rightarrow> jsstring" where
  "trim s = rev (dropWhile is_space (rev (dropWhile is_space s)))"

text \<open>
  \<open>split_ws\<close> is the split of a title on runs of white space: the pieces between maximal runs of white space. A leading or a
  trailing run leaves an empty first or last piece, as in JavaScript.
\<close>

function split_ws :: "jsstring \<Rightarrow> jsstring list" where
  "split_ws [] = [[]]"
| "split_ws (c # s) =
     (if is_space c then [] # split_ws (dropWhile is_space s)
      else (case split_ws s of
              [] \<Rightarrow> [[c]]
            | tok # toks \<Rightarrow> (c # tok) # toks))"
  by pat_completeness auto
termination
  by (relation "measure length") (auto simp: le_imp_less_Suc length_dropWhile_le)


section \<open>The trie\<close>

text \<open>
  \<^verbatim>\<open>class TrieNode { children = Object.create(null); isWord = false }\<close>. The children object
  is an association list with one entry per key, in the order the keys were added; the order
  is immaterial, since the only enumeration of the keys sorts them first.
\<close>

datatype trie = TrieNode (isWord: bool) (children: "(nat \<times> trie) list")

definition empty_trie :: trie where
  "empty_trie = TrieNode False []"

text \<open>
  The loop of \<^verbatim>\<open>Trie.insert\<close> over the characters of the lower-cased word: create the
  child if it is missing, descend, and mark the last node. \<open>AList.update\<close> replaces the entry
  of an existing key in place and appends a new key.
\<close>

fun ins :: "jsstring \<Rightarrow> trie \<Rightarrow> trie" where
  "ins [] node = TrieNode True (children node)"
| "ins (ch # rest) node =
     (let child = (case map_of (children node) ch of
                     None \<Rightarrow> TrieNode False []
                   | Some c \<Rightarrow> c)
      in TrieNode (isWord node) (AList.update ch (ins rest child) (children node)))"

definition insert_trie :: "(jsstring \<Rightarrow> jsstring) \<Rightarrow> jsstring \<Rightarrow> trie \<Rightarrow> trie" where
  "insert_trie lc word t = (if word = [] then t else ins (lc word) t)"

fun getNode :: "trie \<Rightarrow> jsstring \<Rightarrow> trie option" where
  "getNode node [] = Some node"
| "getNode node (ch # rest) =
     (case map_of (children node) ch of
        None \<Rightarrow> None
      | Some child \<Rightarrow> getNode child rest)"

lemma map_of_size:
  "map_of cs k = Some ch \<Longrightarrow> size ch < Suc (size_list (size_prod (\<lambda>_. 0) size) cs)"
  by (induction cs) (auto split: if_splits)

lemma map_of_children_size [termination_simp]:
  "map_of (children node) k = Some ch \<Longrightarrow> size ch < size node"
  by (cases node) (auto dest: map_of_size)

lemma size_trie_pos: "0 < size (node :: trie)"
  by (cases node) simp

text \<open>
  \<^verbatim>\<open>_collect(node, prefix, results, limit)\<close> pushes onto the shared array \<open>results\<close>; the
  model threads the array through. \<open>collect_loop\<close> is the \<^verbatim>\<open>for\<close> loop over the sorted keys
  with its \<^verbatim>\<open>break\<close>; a missing child is \<open>None\<close>, the \<^verbatim>\<open>!node\<close> of the source.
\<close>

function collect :: "trie option \<Rightarrow> jsstring \<Rightarrow> jsstring list \<Rightarrow> int \<Rightarrow> jsstring list"
  and collect_loop :: "trie \<Rightarrow> nat list \<Rightarrow> jsstring \<Rightarrow> jsstring list \<Rightarrow> int \<Rightarrow> jsstring list"
where
  "collect None pfx results limit = results"
| "collect (Some node) pfx results limit =
     (if int (length results) \<ge> limit then results
      else collect_loop node (sort_key utf16 (map fst (children node))) pfx
             (if isWord node then results @ [pfx] else results) limit)"
| "collect_loop node [] pfx results limit = results"
| "collect_loop node (k # ks) pfx results limit =
     (if int (length results) \<ge> limit then results
      else collect_loop node ks pfx
             (collect (map_of (children node) k) (pfx @ [k]) results limit) limit)"
  by pat_completeness auto
termination
  by (relation "measures
        [\<lambda>x. case x of Inl (n, _) \<Rightarrow> (case n of None \<Rightarrow> 0 | Some t \<Rightarrow> size t)
                       | Inr (t, _) \<Rightarrow> size t,
         \<lambda>x. case x of Inl _ \<Rightarrow> 1 | Inr _ \<Rightarrow> 0,
         \<lambda>x. case x of Inl _ \<Rightarrow> 0 | Inr (_, ks, _) \<Rightarrow> length ks]")
     (auto split: option.splits simp: map_of_children_size size_trie_pos)

definition suggestions :: "(jsstring \<Rightarrow> jsstring) \<Rightarrow> jsstring \<Rightarrow> int \<Rightarrow> trie \<Rightarrow> jsstring list" where
  "suggestions lc pfx limit t =
     (case getNode t (lc pfx) of
        None \<Rightarrow> []
      | Some node \<Rightarrow> collect (Some node) (lc pfx) [] limit)"


section \<open>The term index and the corpus loader\<close>

text \<open>
  A document as the loader reads it. A field the response leaves out is \<open>None\<close>, which the
  source replaces by a default (\<^verbatim>\<open>p.citations_count || 0\<close>, \<^verbatim>\<open>p.keywords || []\<close>,
  \<^verbatim>\<open>if (p.title)\<close>).
\<close>

record paper =
  citations_count :: "int option"
  paper_keywords :: "jsstring list option"
  title :: "jsstring option"

text \<open>
  \<^verbatim>\<open>displayMap\<close> and \<^verbatim>\<open>citationsMap\<close> are created with \<^verbatim>\<open>{}\<close>, so they inherit the
  properties of \<^verbatim>\<open>Object.prototype\<close>. Reading \<^verbatim>\<open>obj[k]\<close> gives the own property \<open>k\<close> when
  the object has one, the inherited value (a function, or \<^verbatim>\<open>Object.prototype\<close> itself for
  \<^verbatim>\<open>__proto__\<close>) when \<open>k\<close> names a property of \<^verbatim>\<open>Object.prototype\<close>, and \<^verbatim>\<open>undefined\<close>
  otherwise. Assigning a string or a number to \<^verbatim>\<open>obj[k]\<close> creates or overwrites the own
  property \<open>k\<close>, except for \<^verbatim>\<open>__proto__\<close>: its setter ignores a value that is neither an
  object nor \<^verbatim>\<open>null\<close>, and no own property appears.
\<close>

definition object_prototype_names :: "jsstring list" where
  "object_prototype_names =
     map str [''constructor'', ''__defineGetter__'', ''__defineSetter__'', ''hasOwnProperty'',
              ''__lookupGetter__'', ''__lookupSetter__'', ''isPrototypeOf'',
              ''propertyIsEnumerable'', ''toString'', ''valueOf'', ''__proto__'',
              ''toLocaleString'']"

definition inherited :: "jsstring \<Rightarrow> bool" where
  "inherited k = (k \<in> set object_prototype_names)"

definition proto_key :: jsstring where
  "proto_key = str ''__proto__''"

datatype 'a property = Undefined | Own 'a | Inherited

definition get_property :: "(jsstring \<rightharpoonup> 'a) \<Rightarrow> jsstring \<Rightarrow> 'a property" where
  "get_property obj k =
     (case obj k of
        Some v \<Rightarrow> Own v
      | None \<Rightarrow> if inherited k then Inherited else Undefined)"

definition set_property :: "(jsstring \<rightharpoonup> 'a) \<Rightarrow> jsstring \<Rightarrow> 'a \<Rightarrow> (jsstring \<rightharpoonup> 'a)" where
  "set_property obj k v = (if k = proto_key then obj else obj(k \<mapsto> v))"

text \<open>
  A stored citation weight is an integer or \<^verbatim>\<open>NaN\<close>. The value of
  \<^verbatim>\<open>citationsMap[k] || 0\<close> is an integer (\<^verbatim>\<open>undefined\<close>, \<open>0\<close> and \<^verbatim>\<open>NaN\<close> are falsy and give
  \<open>0\<close>) or the inherited object, which is truthy. \<^verbatim>\<open>Math.max\<close> converts its arguments to
  numbers, an object of \<^verbatim>\<open>Object.prototype\<close> to \<^verbatim>\<open>NaN\<close>, and returns \<^verbatim>\<open>NaN\<close> when one of
  them is.
\<close>

datatype jsnum = Num int | NaN

datatype weight = Count int | ProtoObject

definition weight_or_zero :: "jsnum property \<Rightarrow> weight" where
  "weight_or_zero p =
     (case p of
        Undefined \<Rightarrow> Count 0
      | Own v \<Rightarrow> (case v of Num n \<Rightarrow> if n = 0 then Count 0 else Count n | NaN \<Rightarrow> Count 0)
      | Inherited \<Rightarrow> ProtoObject)"

definition to_number :: "weight \<Rightarrow> jsnum" where
  "to_number w = (case w of Count n \<Rightarrow> Num n | ProtoObject \<Rightarrow> NaN)"

definition math_max :: "jsnum \<Rightarrow> jsnum \<Rightarrow> jsnum" where
  "math_max a b =
     (case a of
        NaN \<Rightarrow> NaN
      | Num x \<Rightarrow> (case b of NaN \<Rightarrow> NaN | Num y \<Rightarrow> Num (max x y)))"

text \<open>
  The module state: \<^verbatim>\<open>trie\<close>, and the own properties of \<^verbatim>\<open>displayMap\<close> and
  \<^verbatim>\<open>citationsMap\<close>, keyed by the lower-cased term.
\<close>

record index_state =
  trie :: trie
  displayMap :: "jsstring \<rightharpoonup> jsstring"
  citationsMap :: "jsstring \<rightharpoonup> jsnum"

definition empty_index :: index_state where
  "empty_index = \<lparr>trie = empty_trie, displayMap = Map.empty, citationsMap = Map.empty\<rparr>"

text \<open>
  \<^verbatim>\<open>Number(p.citations_count || 0)\<close> on a count that may be missing: \<^verbatim>\<open>undefined\<close> and \<open>0\<close>
  both give \<open>0\<close>.
\<close>

definition or_zero :: "int option \<Rightarrow> int" where
  "or_zero v = (case v of None \<Rightarrow> 0 | Some n \<Rightarrow> if n = 0 then 0 else n)"

text \<open>
  The three statements both callbacks of the loader end with:
  \<^verbatim>\<open>trie.insert(t); displayMap[l] = t; citationsMap[l] = Math.max(citationsMap[l] || 0, cite)\<close>
  where \<^verbatim>\<open>l = t.toLowerCase()\<close>.
\<close>

definition record_term ::
  "(jsstring \<Rightarrow> jsstring) \<Rightarrow> int \<Rightarrow> jsstring \<Rightarrow> index_state \<Rightarrow> index_state" where
  "record_term lc cite t s =
     (let l = lc t
      in s\<lparr>trie := insert_trie lc t (trie s),
           displayMap := set_property (displayMap s) l t,
           citationsMap :=
             set_property (citationsMap s) l
               (math_max (to_number (weight_or_zero (get_property (citationsMap s) l)))
                         (Num cite))\<rparr>)"

text \<open>The keyword callback trims and skips an empty result; the title callback does neither.\<close>

definition keyword_step ::
  "(jsstring \<Rightarrow> jsstring) \<Rightarrow> int \<Rightarrow> index_state \<Rightarrow> jsstring \<Rightarrow> index_state" where
  "keyword_step lc cite s k = (let t = trim k in if t = [] then s else record_term lc cite t s)"

definition title_step ::
  "(jsstring \<Rightarrow> jsstring) \<Rightarrow> int \<Rightarrow> index_state \<Rightarrow> jsstring \<Rightarrow> index_state" where
  "title_step lc cite s tok = record_term lc cite tok s"

definition cite_of :: "paper \<Rightarrow> int" where
  "cite_of p = or_zero (citations_count p)"

text \<open>
  The body of \<^verbatim>\<open>for (const p of papers)\<close>. The file holds two revisions of the loader:
  the first indexes the title tokens (\<open>titles = True\<close>), the second has that block commented
  out (\<open>titles = False\<close>).
\<close>

definition load_paper ::
  "(jsstring \<Rightarrow> jsstring) \<Rightarrow> bool \<Rightarrow> index_state \<Rightarrow> paper \<Rightarrow> index_state" where
  "load_paper lc titles s p =
     (let cite = cite_of p;
          s1 = foldl (keyword_step lc cite) s
                 (case paper_keywords p of None \<Rightarrow> [] | Some ks \<Rightarrow> ks)
      in case title p of
           None \<Rightarrow> s1
         | Some ti \<Rightarrow>
             if titles \<and> ti \<noteq> [] then foldl (title_step lc cite) s1 (split_ws ti) else s1)"

text \<open>
  What \<^verbatim>\<open>await fetch(url)\<close> can do: reject (\<open>NetworkError\<close>), or resolve to a response with
  its \<^verbatim>\<open>ok\<close> flag and a body that \<^verbatim>\<open>json()\<close> either rejects (\<open>Malformed\<close>) or parses into
  the documents.
\<close>

datatype json_body = Malformed | Documents "paper list"

datatype fetch_result = NetworkError | Response bool json_body

text \<open>
  The first revision requests the absolute URL, the second the relative one; the flag that
  tells the revisions apart is the one of \<open>load_paper\<close>.
\<close>

definition API_ALL :: "bool \<Rightarrow> string" where
  "API_ALL first_revision =
     (if first_revision then ''https://scholarsearch-backend.onrender.com/api/all''
      else ''/api/all'')"

definition FALLBACK_PAPERS :: "string list" where
  "FALLBACK_PAPERS = [''/papers'', ''backend/papers.json'', ''papers.json'']"

text \<open>
  The loop over \<^verbatim>\<open>FALLBACK_PAPERS\<close>, returning the URLs it requested and the documents it
  ended with. An exception inside the \<^verbatim>\<open>try\<close> is swallowed and the loop goes on; the first
  response that is \<^verbatim>\<open>ok\<close> and parses ends it.
\<close>

fun try_fallbacks ::
  "(string \<Rightarrow> fetch_result) \<Rightarrow> string list \<Rightarrow> string list \<times> paper list" where
  "try_fallbacks fetch [] = ([], [])"
| "try_fallbacks fetch (u # us) =
     (case fetch u of
        Response ok body \<Rightarrow>
          (if ok then (case body of
                         Documents ps \<Rightarrow> ([u], ps)
                       | Malformed \<Rightarrow>
                           (let (log, ps) = try_fallbacks fetch us in (u # log, ps)))
           else (let (log, ps) = try_fallbacks fetch us in (u # log, ps)))
      | NetworkError \<Rightarrow> (let (log, ps) = try_fallbacks fetch us in (u # log, ps)))"

text \<open>The loader: the URLs requested, in order, and the state it leaves.\<close>

definition loadAllTermsAndBuildTrie ::
  "(jsstring \<Rightarrow> jsstring) \<Rightarrow> bool \<Rightarrow> (string \<Rightarrow> fetch_result) \<Rightarrow> index_state
     \<Rightarrow> string list \<times> index_state" where
  "loadAllTermsAndBuildTrie lc titles fetch s =
     (let papers0 = (case fetch (API_ALL titles) of
                       Response ok body \<Rightarrow>
                         (if ok then (case body of Documents ps \<Rightarrow> ps | Malformed \<Rightarrow> [])
                          else [])
                     | NetworkError \<Rightarrow> []);
          (log, papers) = (if papers0 = [] then try_fallbacks fetch FALLBACK_PAPERS
                           else ([], papers0))
      in (API_ALL titles # log, if papers = [] then s else foldl (load_paper lc titles) s papers))"


section \<open>The suggestion list\<close>

text \<open>
  One entry of the list \<^verbatim>\<open>renderSuggestions\<close> builds: \<^verbatim>\<open>{key, term, citations}\<close>.
  The field \<^verbatim>\<open>term\<close> is \<open>term_display\<close> here, held as the string that every use of it
  makes of it (\<^verbatim>\<open>escapeHtml\<close>, the \<^verbatim>\<open>data-term\<close> attribute, the value of the input). For an
  inherited value that is \<^verbatim>\<open>[object Object]\<close> for \<^verbatim>\<open>__proto__\<close> and the source text of a
  native function for the other names, written the way V8 prints it; no property below
  depends on the text of a function.
\<close>

record suggestion =
  key :: jsstring
  term_display :: jsstring
  citations :: weight

definition string_of_inherited :: "jsstring \<Rightarrow> jsstring" where
  "string_of_inherited k =
     (if k = proto_key then str ''[object Object]''
      else str ''function '' @ (if k = str ''constructor'' then str ''Object'' else k)
           @ str ''() { [native code] }'')"

definition resolve :: "index_state \<Rightarrow> jsstring \<Rightarrow> suggestion" where
  "resolve s k =
     \<lparr>key = k,
      term_display = (case get_property (displayMap s) k of
                        Undefined \<Rightarrow> k
                      | Own t \<Rightarrow> if t = [] then k else t
                      | Inherited \<Rightarrow> string_of_inherited k),
      citations = weight_or_zero (get_property (citationsMap s) k)\<rparr>"

text \<open>
  \<^verbatim>\<open>Array.prototype.sort(cmp)\<close> is stable: an element goes before the first element it does
  not compare greater than, so elements that compare equal keep their order. A comparator
  result of \<^verbatim>\<open>NaN\<close> counts as \<open>+0\<close>, as the language specification says; where the
  comparator is not a consistent order the specification leaves the result to the engine,
  and the insertion below is then one conforming outcome.
\<close>

definition sort_compare :: "jsnum \<Rightarrow> int" where
  "sort_compare v = (case v of Num n \<Rightarrow> n | NaN \<Rightarrow> 0)"

fun js_insert :: "('a \<Rightarrow> 'a \<Rightarrow> jsnum) \<Rightarrow> 'a \<Rightarrow> 'a list \<Rightarrow> 'a list" where
  "js_insert cmp x [] = [x]"
| "js_insert cmp x (y # ys) =
     (if sort_compare (cmp x y) \<le> 0 then x # y # ys else y # js_insert cmp x ys)"

definition js_sort :: "('a \<Rightarrow> 'a \<Rightarrow> jsnum) \<Rightarrow> 'a list \<Rightarrow> 'a list" where
  "js_sort cmp xs = foldr (js_insert cmp) xs []"

text \<open>
  \<^verbatim>\<open>(a, b) => b.citations - a.citations\<close>: the difference of two numbers, and \<^verbatim>\<open>NaN\<close> when
  one operand is an inherited object.
\<close>

definition by_citations :: "suggestion \<Rightarrow> suggestion \<Rightarrow> jsnum" where
  "by_citations a b =
     (case citations b of
        Count x \<Rightarrow> (case citations a of Count y \<Rightarrow> Num (x - y) | ProtoObject \<Rightarrow> NaN)
      | ProtoObject \<Rightarrow> NaN)"

definition suggestion_list :: "(jsstring \<Rightarrow> jsstring) \<Rightarrow> index_state \<Rightarrow> jsstring \<Rightarrow> suggestion list" where
  "suggestion_list lc s pfx =
     js_sort by_citations (map (resolve s) (suggestions lc pfx 8 (trie s)))"


section \<open>The input controller\<close>

text \<open>
  What the handlers of the second revision read and write: the text of the input, the
  panel's \<^verbatim>\<open>style.display\<close>, the rendered entries, \<^verbatim>\<open>currentSelectionIndex\<close>, and the
  query \<^verbatim>\<open>doSearch\<close> navigates to. The panel element is taken to exist.
\<close>

record ui_state =
  input_value :: jsstring
  panel_display :: string
  items :: "suggestion list"
  currentSelectionIndex :: int
  location :: "jsstring option"

definition clearSuggestions :: "ui_state \<Rightarrow> ui_state" where
  "clearSuggestions u = u\<lparr>items := [], panel_display := ''none'', currentSelectionIndex := - 1\<rparr>"

definition renderSuggestions ::
  "(jsstring \<Rightarrow> jsstring) \<Rightarrow> index_state \<Rightarrow> jsstring \<Rightarrow> ui_state \<Rightarrow> ui_state" where
  "renderSuggestions lc s pfx u =
     (let u1 = u\<lparr>currentSelectionIndex := - 1\<rparr>;
          list = suggestion_list lc s pfx
      in if list = [] then clearSuggestions u1
         else u1\<lparr>items := list, panel_display := ''block''\<rparr>)"

definition doSearch :: "ui_state \<Rightarrow> ui_state" where
  "doSearch u = (let q = trim (input_value u) in if q = [] then u else u\<lparr>location := Some q\<rparr>)"

definition on_input :: "(jsstring \<Rightarrow> jsstring) \<Rightarrow> index_state \<Rightarrow> ui_state \<Rightarrow> ui_state" where
  "on_input lc s u =
     (let q = trim (input_value u)
      in if q = [] then clearSuggestions u else renderSuggestions lc s q u)"

datatype key_event = ArrowDown | ArrowUp | Enter | Escape | OtherKey

definition keydown :: "key_event \<Rightarrow> ui_state \<Rightarrow> ui_state" where
  "keydown e u =
     (case e of
        ArrowDown \<Rightarrow>
          (if panel_display u \<noteq> ''none'' \<and> length (items u) > 0
           then (let i = currentSelectionIndex u + 1
                 in u\<lparr>currentSelectionIndex := (if i \<ge> int (length (items u)) then 0 else i)\<rparr>)
           else u)
      | ArrowUp \<Rightarrow>
          (if panel_display u \<noteq> ''none'' \<and> length (items u) > 0
           then (let i = currentSelectionIndex u - 1
                 in u\<lparr>currentSelectionIndex := (if i < 0 then int (length (items u)) - 1 else i)\<rparr>)
           else u)
      | Enter \<Rightarrow>
          (if currentSelectionIndex u > - 1 \<and> panel_display u \<noteq> ''none''
           then (if nat (currentSelectionIndex u) < length (items u)
                 then clearSuggestions
                        (u\<lparr>input_value := term_display (items u ! nat (currentSelectionIndex u))\<rparr>)
                 else u)
           else doSearch u)
      | Escape \<Rightarrow> clearSuggestions u
      | OtherKey \<Rightarrow> u)"


section \<open>Notions the properties are stated with\<close>

text \<open>
  \<open>build lc ws\<close> is the trie after \<^verbatim>\<open>insert\<close> has been called on the words \<open>ws\<close> in turn,
  starting from \<^verbatim>\<open>new Trie()\<close>: every trie the program can hold is of this form.
  \<open>is_terminal t w\<close> says that walking \<open>w\<close> from the root ends in a node marked \<^verbatim>\<open>isWord\<close>.
\<close>

definition build :: "(jsstring \<Rightarrow> jsstring) \<Rightarrow> jsstring list \<Rightarrow> trie" where
  "build lc ws = foldl (\<lambda>t w. insert_trie lc w t) empty_trie ws"

definition is_terminal :: "trie \<Rightarrow> jsstring \<Rightarrow> bool" where
  "is_terminal t w = (case getNode t w of None \<Rightarrow> False | Some n \<Rightarrow> isWord n)"

text \<open>
  The order of the enumeration: strings compared character by character, a character by its
  UTF-16 form. On the Basic Multilingual Plane this is the order of the code points.
\<close>

definition utf16_less :: "jsstring \<Rightarrow> jsstring \<Rightarrow> bool" where
  "utf16_less a b = (map utf16 a < map utf16 b)"

definition utf16_le :: "jsstring \<Rightarrow> jsstring \<Rightarrow> bool" where
  "utf16_le a b = (map utf16 a \<le> map utf16 b)"

text \<open>
  The whole enumeration below a node, without a limit (the suffixes, in the order
  \<open>collect\<close> visits them), and the representation invariant of the association lists: a
  JavaScript object holds each key once.
\<close>

fun words_of :: "trie \<Rightarrow> jsstring list" where
  "words_of node =
     (if isWord node then [[]] else []) @
     concat (map (\<lambda>k. case map_of (children node) k of
                          None \<Rightarrow> []
                        | Some ch \<Rightarrow> map ((#) k) (words_of ch))
                 (sort_key utf16 (map fst (children node))))"

declare words_of.simps [simp del]

fun wf_trie :: "trie \<Rightarrow> bool" where
  "wf_trie (TrieNode w cs) = (distinct (map fst cs) \<and> (\<forall>x \<in> set cs. wf_trie (snd x)))"

definition block :: "trie \<Rightarrow> jsstring \<Rightarrow> nat \<Rightarrow> jsstring list" where
  "block node pfx k = (case map_of (children node) k of
                          None \<Rightarrow> []
                        | Some ch \<Rightarrow> map ((@) (pfx @ [k])) (words_of ch))"

definition all_matches :: "trie \<Rightarrow> jsstring \<Rightarrow> jsstring list" where
  "all_matches t lp = (case getNode t lp of None \<Rightarrow> [] | Some n \<Rightarrow> map ((@) lp) (words_of n))"

text \<open>
  The terms one document records, in order, and the recordings of a corpus: each term with
  the citation count of its document. \<open>record_all\<close> replays a list of recordings.
\<close>

definition paper_terms :: "bool \<Rightarrow> paper \<Rightarrow> jsstring list" where
  "paper_terms titles p =
     filter (\<lambda>t. t \<noteq> []) (map trim (case paper_keywords p of None \<Rightarrow> [] | Some ks \<Rightarrow> ks)) @
     (case title p of
        None \<Rightarrow> []
      | Some ti \<Rightarrow> if titles \<and> ti \<noteq> [] then split_ws ti else [])"

definition recordings :: "bool \<Rightarrow> paper list \<Rightarrow> (jsstring \<times> int) list" where
  "recordings titles ps =
     concat (map (\<lambda>p. map (\<lambda>t. (t, cite_of p)) (paper_terms titles p)) ps)"

definition record_all ::
  "(jsstring \<Rightarrow> jsstring) \<Rightarrow> index_state \<Rightarrow> (jsstring \<times> int) list \<Rightarrow> index_state" where
  "record_all lc s evs = foldl (\<lambda>s (t, c). record_term lc c t s) s evs"

text \<open>
  The integer of a weight (an inherited object counts as \<open>0\<close> here; it is told apart by
  \<open>ProtoObject\<close>), and the weight the index holds for a term: what
  \<^verbatim>\<open>citationsMap[l] || 0\<close> gives.
\<close>

definition weight_int :: "weight \<Rightarrow> int" where
  "weight_int w = (case w of Count n \<Rightarrow> n | ProtoObject \<Rightarrow> 0)"

definition held_weight :: "index_state \<Rightarrow> jsstring \<Rightarrow> int" where
  "held_weight s l = weight_int (weight_or_zero (get_property (citationsMap s) l))"

text \<open>
  A source has failed when the request was rejected or the status is not a success; it
  delivers when the response is \<^verbatim>\<open>ok\<close> and its body parses.
\<close>

definition source_failed :: "fetch_result \<Rightarrow> bool" where
  "source_failed r = (case r of NetworkError \<Rightarrow> True | Response ok body \<Rightarrow> \<not> ok)"

definition delivers :: "fetch_result \<Rightarrow> bool" where
  "delivers r = (case r of NetworkError \<Rightarrow> False | Response ok body \<Rightarrow> ok \<and> body \<noteq> Malformed)"


section \<open>Example data\<close>

text \<open>The corpus of the end-to-end scenario, and one that records a term in two casings.\<close>

definition scenario_corpus :: "paper list" where
  "scenario_corpus =
     [\<lparr>citations_count = Some 50, paper_keywords = Some [str ''Transformer''], title = None\<rparr>,
      \<lparr>citations_count = Some 10, paper_keywords = Some [str ''transformers''], title = None\<rparr>]"

definition recased_corpus :: "paper list" where
  "recased_corpus =
     [\<lparr>citations_count = Some 10, paper_keywords = Some [str ''Transformer''], title = None\<rparr>,
      \<lparr>citations_count = Some 50, paper_keywords = Some [str ''TRANSFORMER''], title = None\<rparr>]"

text \<open>
  Corpora with a keyword that names a property of \<^verbatim>\<open>Object.prototype\<close>: one with
  \<^verbatim>\<open>__proto__\<close> between two other keywords, and \<^verbatim>\<open>constructor\<close> with 100 and with 10
  citations.
\<close>

definition proto_corpus :: "paper list" where
  "proto_corpus =
     [\<lparr>citations_count = Some 10, paper_keywords = Some [str ''_1''], title = None\<rparr>,
      \<lparr>citations_count = Some 5, paper_keywords = Some [str ''__proto__''], title = None\<rparr>,
      \<lparr>citations_count = Some 50, paper_keywords = Some [str ''_b''], title = None\<rparr>]"

definition constructor_100 :: paper where
  "constructor_100 =
     \<lparr>citations_count = Some 100, paper_keywords = Some [str ''constructor''], title = None\<rparr>"

definition constructor_10 :: paper where
  "constructor_10 =
     \<lparr>citations_count = Some 10, paper_keywords = Some [str ''Constructor''], title = None\<rparr>"

text \<open>A document whose title starts with a space.\<close>

definition padded_title_corpus :: "paper list" where
  "padded_title_corpus =
     [\<lparr>citations_count = Some 1, paper_keywords = None, title = Some (str '' Deep'')\<rparr>]"

text \<open>
  Document sources: one where every URL answers with the given documents, and one where
  only the second fallback does.
\<close>

definition serve :: "paper list \<Rightarrow> string \<Rightarrow> fetch_result" where
  "serve ps url = Response True (Documents ps)"

definition second_fallback_only :: "string \<Rightarrow> fetch_result" where
  "second_fallback_only url =
     (if url = ''backend/papers.json'' then Response True (Documents scenario_corpus)
      else if url = ''/papers'' then Response False Malformed
      else NetworkError)"

text \<open>A panel showing three entries, the last one selected.\<close>

definition three_shown :: ui_state where
  "three_shown =
     \<lparr>input_value = str ''tr'',
      panel_display = ''block'',
      items = [\<lparr>key = str ''transformer'', term_display = str ''Transformer'', citations = Count 50\<rparr>,
               \<lparr>key = str ''tree'', term_display = str ''Tree'', citations = Count 7\<rparr>,
               \<lparr>key = str ''trie'', term_display = str ''Trie'', citations = Count 3\<rparr>],
      currentSelectionIndex = 2,
      location = None\<rparr>"

lemmas trie_eval = build_def insert_trie_def empty_trie_def suggestions_def utf16_def
  ascii_lower_def str_def Let_def prefix_code

lemmas object_eval = get_property_def set_property_def inherited_def proto_key_def
  object_prototype_names_def weight_or_zero_def to_number_def math_max_def

lemmas loader_eval = loadAllTermsAndBuildTrie_def load_paper_def keyword_step_def title_step_def
  record_term_def cite_of_def or_zero_def trim_def is_space_def empty_index_def
  recordings_def paper_terms_def API_ALL_def object_eval

lemmas ranker_eval = suggestion_list_def resolve_def js_sort_def by_citations_def
  sort_compare_def string_of_inherited_def



section \<open>Lemmas about the trie\<close>


subsection \<open>The bounded traversal is a prefix of the whole enumeration\<close>

lemma take_take_append: "take n (take n xs @ ys) = take n (xs @ ys)"
  by (cases "n \<le> length xs") auto

lemma words_of_blocks:
  "map ((@) pfx) (words_of node) =
     (if isWord node then [pfx] else []) @
     concat (map (block node pfx) (sort_key utf16 (map fst (children node))))"
  by (subst words_of.simps)
     (auto simp: block_def map_concat comp_def split: option.splits intro!: arg_cong[where f=concat] map_cong)

lemma collect_take:
  "collect no pfx results limit =
     (case no of None \<Rightarrow> results
      | Some node \<Rightarrow> take (max (nat limit) (length results)) (results @ map ((@) pfx) (words_of node)))"
  "collect_loop node ks pfx results limit =
     take (max (nat limit) (length results)) (results @ concat (map (block node pfx) ks))"
proof (induction no pfx results limit and node ks pfx results limit rule: collect_collect_loop.induct)
  case (1 pfx results limit)
  show ?case by simp
next
  case (2 node pfx results limit)
  show ?case
  proof (cases "limit \<le> int (length results)")
    case True
    then have "max (nat limit) (length results) = length results" by auto
    with True show ?thesis by simp
  next
    case False
    then have m: "nat limit > length results" by auto
    with False 2 show ?thesis
      by (simp add: words_of_blocks[of pfx node] max_def)
  qed
next
  case (3 node pfx results limit)
  show ?case by simp
next
  case (4 node k ks pfx results limit)
  show ?case
  proof (cases "limit \<le> int (length results)")
    case True
    then have "max (nat limit) (length results) = length results" by auto
    with True show ?thesis by simp
  next
    case False
    then have m: "nat limit > length results" by auto
    let ?r = "collect (map_of (children node) k) (pfx @ [k]) results limit"
    have r: "?r = take (nat limit) (results @ block node pfx k)"
    proof (cases "map_of (children node) k")
      case None
      with m show ?thesis by (simp add: block_def)
    next
      case (Some ch)
      from m have "max (nat limit) (length results) = nat limit" by simp
      with 4(1)[OF False] Some show ?thesis
        by (simp add: block_def del: collect.simps)
    qed
    have mx: "max (nat limit) (length ?r) = nat limit"
      unfolding r by auto
    have "collect_loop node (k # ks) pfx results limit = collect_loop node ks pfx ?r limit"
      using False by (simp del: collect.simps)
    also have "\<dots> = take (max (nat limit) (length ?r)) (?r @ concat (map (block node pfx) ks))"
      by (rule 4(2)[OF False])
    also have "\<dots> = take (nat limit) (take (nat limit) (results @ block node pfx k) @ concat (map (block node pfx) ks))"
      unfolding mx by (simp only: r)
    also have "\<dots> = take (nat limit) ((results @ block node pfx k) @ concat (map (block node pfx) ks))"
      by (rule take_take_append)
    finally show ?thesis
      using m by (simp add: max_def del: take_append)
  qed
qed


subsection \<open>Terminal nodes\<close>

lemma getNode_append:
  "getNode t (p @ s) = (case getNode t p of None \<Rightarrow> None | Some n \<Rightarrow> getNode n s)"
  by (induction p arbitrary: t) (auto split: option.splits)

lemma is_terminal_Nil [simp]: "is_terminal t [] = isWord t"
  by (simp add: is_terminal_def)

lemma is_terminal_Cons:
  "is_terminal t (k # w) = (case map_of (children t) k of None \<Rightarrow> False | Some ch \<Rightarrow> is_terminal ch w)"
  by (simp add: is_terminal_def split: option.splits)

lemma is_terminal_leaf [simp]: "is_terminal (TrieNode False []) w = False"
  by (cases w) (simp_all add: is_terminal_Cons)

lemma is_terminal_append:
  "is_terminal t (p @ s) = (case getNode t p of None \<Rightarrow> False | Some n \<Rightarrow> is_terminal n s)"
  by (simp add: is_terminal_def getNode_append split: option.splits)

lemma Nil_in_words_of: "[] \<in> set (words_of node) \<longleftrightarrow> isWord node"
  by (subst words_of.simps) (auto split: option.splits)

lemma Cons_in_words_of:
  "k # w \<in> set (words_of node) \<longleftrightarrow>
     (\<exists>ch. map_of (children node) k = Some ch \<and> w \<in> set (words_of ch))"
proof
  assume "k # w \<in> set (words_of node)"
  then show "\<exists>ch. map_of (children node) k = Some ch \<and> w \<in> set (words_of ch)"
    by (subst (asm) words_of.simps) (auto split: option.splits if_splits intro: sym)
next
  assume "\<exists>ch. map_of (children node) k = Some ch \<and> w \<in> set (words_of ch)"
  then obtain ch where ch: "map_of (children node) k = Some ch" "w \<in> set (words_of ch)"
    by blast
  from ch(1) have "k \<in> set (sort_key utf16 (map fst (children node)))"
    by (auto dest: map_of_SomeD intro: rev_image_eqI)
  moreover have "k # w \<in> set (case map_of (children node) k of None \<Rightarrow> []
                                | Some c \<Rightarrow> map ((#) k) (words_of c))"
    using ch by simp
  ultimately show "k # w \<in> set (words_of node)"
    by (subst words_of.simps) (simp, blast)
qed

lemma in_words_of: "w \<in> set (words_of n) \<longleftrightarrow> is_terminal n w"
proof (induction w arbitrary: n)
  case Nil
  show ?case by (simp add: Nil_in_words_of)
next
  case (Cons k w)
  show ?case
    by (simp add: Cons_in_words_of is_terminal_Cons Cons.IH split: option.splits)
qed

lemma is_terminal_ins: "is_terminal (ins s t) w \<longleftrightarrow> w = s \<or> is_terminal t w"
proof (induction s arbitrary: t w)
  case Nil
  then show ?case by (cases w) (auto simp: is_terminal_Cons)
next
  case (Cons c s)
  show ?case
  proof (cases w)
    case Nil
    then show ?thesis by (simp add: Let_def)
  next
    case (Cons k w')
    then show ?thesis
      using Cons.IH
      by (auto simp: is_terminal_Cons Let_def update_conv' split: option.splits)
  qed
qed

lemma is_terminal_empty [simp]: "is_terminal empty_trie w = False"
  by (simp add: empty_trie_def)

lemma is_terminal_insert_trie:
  "is_terminal (insert_trie lc word t) l \<longleftrightarrow> (word \<noteq> [] \<and> l = lc word) \<or> is_terminal t l"
  by (simp add: insert_trie_def is_terminal_ins)

lemma is_terminal_build:
  "is_terminal (build lc ws) l \<longleftrightarrow> (\<exists>w \<in> set ws. w \<noteq> [] \<and> lc w = l)"
  unfolding build_def
  by (induction ws rule: rev_induct) (auto simp: is_terminal_insert_trie)


subsection \<open>Each key once\<close>

lemma wf_trie_children:
  "wf_trie t \<longleftrightarrow> distinct (map fst (children t)) \<and> (\<forall>x \<in> set (children t). wf_trie (snd x))"
  by (cases t) simp

lemma in_set_update: "x \<in> set (AList.update k v al) \<Longrightarrow> x = (k, v) \<or> x \<in> set al"
  by (induction al) (auto split: if_splits)

lemma wf_ins: "wf_trie t \<Longrightarrow> wf_trie (ins s t)"
proof (induction s arbitrary: t)
  case Nil
  then show ?case by (cases t) simp
next
  case (Cons c s)
  define child where "child = (case map_of (children t) c of None \<Rightarrow> TrieNode False [] | Some ch \<Rightarrow> ch)"
  have "wf_trie child"
  proof (cases "map_of (children t) c")
    case None
    then show ?thesis by (simp add: child_def)
  next
    case (Some ch)
    then have "(c, ch) \<in> set (children t)" by (rule map_of_SomeD)
    with Cons.prems have "wf_trie ch" by (auto simp: wf_trie_children[of t])
    with Some show ?thesis by (simp add: child_def)
  qed
  then have wf': "wf_trie (ins s child)" by (rule Cons.IH)
  have eq: "ins (c # s) t = TrieNode (isWord t) (AList.update c (ins s child) (children t))"
    by (simp add: child_def)
  have "distinct (map fst (AList.update c (ins s child) (children t)))"
    using Cons.prems by (simp add: wf_trie_children[of t] distinct_update)
  moreover have "wf_trie (snd x)" if "x \<in> set (AList.update c (ins s child) (children t))" for x
    using in_set_update[OF that] wf' Cons.prems by (auto simp: wf_trie_children[of t])
  ultimately show ?case unfolding eq by simp
qed

lemma wf_insert_trie: "wf_trie t \<Longrightarrow> wf_trie (insert_trie lc word t)"
  by (simp add: insert_trie_def wf_ins)

lemma wf_build: "wf_trie (build lc ws)"
  unfolding build_def
  by (induction ws rule: rev_induct) (auto simp: wf_insert_trie empty_trie_def)

lemma wf_getNode: "wf_trie t \<Longrightarrow> getNode t p = Some n \<Longrightarrow> wf_trie n"
proof (induction p arbitrary: t)
  case Nil
  then show ?case by simp
next
  case (Cons c p)
  from Cons.prems(2) obtain ch where ch: "map_of (children t) c = Some ch" "getNode ch p = Some n"
    by (auto split: option.splits)
  from ch(1) have "(c, ch) \<in> set (children t)" by (rule map_of_SomeD)
  with Cons.prems(1) have "wf_trie ch" by (auto simp: wf_trie_children[of t])
  from Cons.IH[OF this ch(2)] show ?case .
qed


subsection \<open>The order of the enumeration\<close>

lemma inj_utf16: "inj utf16"
proof (rule injI)
  fix a b :: nat
  assume eq: "utf16 a = utf16 b"
  show "a = b"
  proof (cases "a < 0x10000")
    case True
    with eq show ?thesis by (auto simp: utf16_def split: if_splits)
  next
    case False
    with eq have b: "\<not> b < 0x10000" by (auto simp: utf16_def split: if_splits)
    from eq False b have "(a - 0x10000) div 0x400 = (b - 0x10000) div 0x400"
      and "(a - 0x10000) mod 0x400 = (b - 0x10000) mod 0x400"
      by (simp_all add: utf16_def)
    then have "a - 0x10000 = b - 0x10000"
      by (metis div_mult_mod_eq)
    with False b show ?thesis by simp
  qed
qed

lemma utf16_less_fun: "utf16_less = (\<lambda>a b. map utf16 a < map utf16 b)"
  by (intro ext) (simp add: utf16_less_def)

lemma utf16_less_irrefl: "\<not> utf16_less a a"
  by (simp add: utf16_less_def)

lemma utf16_less_le: "utf16_less a b \<Longrightarrow> utf16_le a b"
  by (simp add: utf16_less_def utf16_le_def)

lemma utf16_bmp: "c < 0x10000 \<Longrightarrow> utf16 c = [c]"
  by (simp add: utf16_def)

lemma utf16_le_bmp:
  "\<forall>c \<in> set a. c < 0x10000 \<Longrightarrow> \<forall>c \<in> set b. c < 0x10000 \<Longrightarrow> utf16_le a b \<Longrightarrow> a \<le> b"
proof (induction a arbitrary: b)
  case Nil
  then show ?case by simp
next
  case (Cons x a)
  show ?case
  proof (cases b)
    case Nil
    with Cons.prems show ?thesis by (simp add: utf16_le_def)
  next
    case (Cons y b')
    with Cons.prems Cons.IH[of b'] show ?thesis
      by (auto simp: utf16_le_def utf16_bmp)
  qed
qed

lemma sorted_wrt_irrefl_distinct:
  "sorted_wrt R xs \<Longrightarrow> (\<And>x. \<not> R x x) \<Longrightarrow> distinct xs"
  by (induction xs) auto

lemma sorted_wrt_concat_map:
  assumes "sorted_wrt Q ks"
    and "\<And>k. k \<in> set ks \<Longrightarrow> sorted_wrt R (f k)"
    and "\<And>k k' a b. Q k k' \<Longrightarrow> a \<in> set (f k) \<Longrightarrow> b \<in> set (f k') \<Longrightarrow> R a b"
  shows "sorted_wrt R (concat (map f ks))"
  using assms
proof (induction ks)
  case Nil
  show ?case by simp
next
  case (Cons k ks)
  have "sorted_wrt R (concat (map f ks))"
    using Cons by simp
  moreover have "sorted_wrt R (f k)" using Cons.prems(2) by simp
  moreover have "R a b" if "a \<in> set (f k)" "b \<in> set (concat (map f ks))" for a b
  proof -
    from that(2) obtain k' where k': "k' \<in> set ks" "b \<in> set (f k')" by auto
    with Cons.prems(1) have "Q k k'" by simp
    from Cons.prems(3)[OF this that(1) k'(2)] show ?thesis .
  qed
  ultimately show ?case by (simp add: sorted_wrt_append)
qed

lemma sorted_wrt_take_drop:
  "sorted_wrt R (map f xs) \<Longrightarrow> sorted_wrt R (map f (take n xs))"
  by (simp add: take_map[symmetric] sorted_wrt_take)

lemma sorted_keys_strict:
  assumes "distinct ks"
  shows "sorted_wrt (\<lambda>a b. utf16 a < utf16 b) (sort_key utf16 ks)"
proof -
  have "sorted (map utf16 (sort_key utf16 ks))" by (rule sorted_sort_key)
  moreover have "distinct (map utf16 (sort_key utf16 ks))"
    using assms inj_utf16 by (simp add: distinct_map inj_on_def inj_def)
  ultimately have "sorted_wrt (<) (map utf16 (sort_key utf16 ks))"
    by (simp add: strict_sorted_iff)
  then show ?thesis by (simp add: sorted_wrt_map)
qed

lemma words_of_strict_sorted: "wf_trie n \<Longrightarrow> sorted_wrt utf16_less (words_of n)"
proof (induction n rule: words_of.induct)
  case (1 node)
  let ?ks = "sort_key utf16 (map fst (children node))"
  let ?f = "\<lambda>k. case map_of (children node) k of None \<Rightarrow> [] | Some ch \<Rightarrow> map ((#) k) (words_of ch)"
  from "1.prems" have dist: "distinct (map fst (children node))"
    and kids: "\<And>x. x \<in> set (children node) \<Longrightarrow> wf_trie (snd x)"
    by (simp_all add: wf_trie_children[of node])
  have heads: "\<exists>a'. a = k # a'" if "a \<in> set (?f k)" for a k
    using that by (auto split: option.splits)
  have blocks: "sorted_wrt utf16_less (?f k)" if "k \<in> set ?ks" for k
  proof (cases "map_of (children node) k")
    case None
    then show ?thesis by simp
  next
    case (Some ch)
    then have "(k, ch) \<in> set (children node)" by (rule map_of_SomeD)
    then have "wf_trie ch" using kids by fastforce
    from "1.IH"[OF that Some this] have "sorted_wrt utf16_less (words_of ch)" .
    then have "sorted_wrt utf16_less (map ((#) k) (words_of ch))"
      by (simp add: sorted_wrt_map utf16_less_fun)
    with Some show ?thesis by simp
  qed
  have across: "utf16_less a b" if "utf16 k < utf16 k'" "a \<in> set (?f k)" "b \<in> set (?f k')" for k k' a b
  proof -
    from heads[OF that(2)] heads[OF that(3)] obtain a' b' where "a = k # a'" "b = k' # b'" by blast
    with that(1) show ?thesis by (simp add: utf16_less_def)
  qed
  have conc: "sorted_wrt utf16_less (concat (map ?f ?ks))"
    by (rule sorted_wrt_concat_map[where Q = "\<lambda>a b. utf16 a < utf16 b"])
       (use sorted_keys_strict[OF dist] blocks across in blast)+
  have first: "utf16_less [] b" if "b \<in> set (concat (map ?f ?ks))" for b
  proof -
    from that obtain k where "b \<in> set (?f k)" by auto
    from heads[OF this] show ?thesis by (auto simp: utf16_less_def)
  qed
  show ?case
    by (subst words_of.simps) (use conc first in \<open>simp add: sorted_wrt_append\<close>)
qed

lemma words_of_distinct: "wf_trie n \<Longrightarrow> distinct (words_of n)"
  using words_of_strict_sorted[of n] utf16_less_irrefl
  by (rule sorted_wrt_irrefl_distinct)


subsection \<open>What the suggestions operation returns\<close>

lemma suggestions_take:
  "suggestions lc p limit t = take (nat limit) (all_matches t (lc p))"
  by (simp add: suggestions_def all_matches_def collect_take(1) split: option.splits del: collect.simps)

lemma set_all_matches: "set (all_matches t lp) = {w. prefix lp w \<and> is_terminal t w}"
proof (cases "getNode t lp")
  case None
  then show ?thesis
    by (auto simp: all_matches_def prefix_def is_terminal_append)
next
  case (Some n)
  then show ?thesis
    by (auto simp: all_matches_def prefix_def is_terminal_append in_words_of)
qed

lemma distinct_all_matches: "wf_trie t \<Longrightarrow> distinct (all_matches t lp)"
  by (auto simp: all_matches_def distinct_map words_of_distinct split: option.splits
           dest: wf_getNode intro: inj_onI)

lemma sorted_all_matches:
  "wf_trie t \<Longrightarrow> sorted_wrt utf16_less (map (drop (length lp)) (all_matches t lp))"
  by (auto simp: all_matches_def comp_def words_of_strict_sorted split: option.splits
           dest: wf_getNode)

lemma length_all_matches_build:
  "length (all_matches (build lc ws) lp) =
     card {l. prefix lp l \<and> (\<exists>w \<in> set ws. w \<noteq> [] \<and> lc w = l)}"
proof -
  have "length (all_matches (build lc ws) lp) = card (set (all_matches (build lc ws) lp))"
    by (simp add: distinct_card distinct_all_matches wf_build)
  then show ?thesis by (simp add: set_all_matches is_terminal_build)
qed

lemma card_matches_le:
  "card {l. prefix lp l \<and> (\<exists>w \<in> set ws. w \<noteq> [] \<and> lc w = l)}
     \<le> length (filter (\<lambda>w. prefix lp (lc w)) ws)"
proof -
  have "{l. prefix lp l \<and> (\<exists>w \<in> set ws. w \<noteq> [] \<and> lc w = l)}
          \<subseteq> lc ` set (filter (\<lambda>w. prefix lp (lc w)) ws)"
    by auto
  then have "card {l. prefix lp l \<and> (\<exists>w \<in> set ws. w \<noteq> [] \<and> lc w = l)}
               \<le> card (lc ` set (filter (\<lambda>w. prefix lp (lc w)) ws))"
    by (intro card_mono) auto
  also have "\<dots> \<le> card (set (filter (\<lambda>w. prefix lp (lc w)) ws))"
    by (rule card_image_le) simp
  also have "\<dots> \<le> length (filter (\<lambda>w. prefix lp (lc w)) ws)"
    by (rule card_length)
  finally show ?thesis .
qed

lemma suggestions_empty_trie [simp]: "suggestions lc q limit empty_trie = []"
proof -
  have "set (all_matches empty_trie (lc q)) = {}"
    by (simp add: set_all_matches)
  then show ?thesis by (simp add: suggestions_take)
qed




section \<open>Lemmas about the loader\<close>

lemma or_zero_eq [simp]: "or_zero None = 0" "or_zero (Some n) = n"
  by (simp_all add: or_zero_def)

lemma record_all_simps [simp]:
  "record_all lc s [] = s"
  "record_all lc s ((t, c) # evs) = record_all lc (record_term lc c t s) evs"
  "record_all lc s (evs @ evs') = record_all lc (record_all lc s evs) evs'"
  by (simp_all add: record_all_def)

lemma keyword_steps:
  "foldl (keyword_step lc c) s ks =
     record_all lc s (map (\<lambda>t. (t, c)) (filter (\<lambda>t. t \<noteq> []) (map trim ks)))"
  by (induction ks arbitrary: s) (simp_all add: keyword_step_def Let_def)

lemma title_steps:
  "foldl (title_step lc c) s toks = record_all lc s (map (\<lambda>t. (t, c)) toks)"
  by (induction toks arbitrary: s) (simp_all add: title_step_def)

lemma load_paper_recordings:
  "load_paper lc titles s p = record_all lc s (map (\<lambda>t. (t, cite_of p)) (paper_terms titles p))"
  by (simp add: load_paper_def paper_terms_def keyword_steps title_steps Let_def split: option.splits)

lemma load_papers_recordings:
  "foldl (load_paper lc titles) s ps = record_all lc s (recordings titles ps)"
  by (induction ps arbitrary: s) (simp_all add: recordings_def load_paper_recordings)


subsection \<open>One recording\<close>

lemma not_inherited_proto_key: "\<not> inherited l \<Longrightarrow> l \<noteq> proto_key"
  by (auto simp: inherited_def proto_key_def object_prototype_names_def)

lemma trie_record_term: "trie (record_term lc c t s) = insert_trie lc t (trie s)"
  by (simp add: record_term_def Let_def)

lemma displayMap_record_term:
  "displayMap (record_term lc c t s) l =
     (if lc t = l \<and> l \<noteq> proto_key then Some t else displayMap s l)"
  by (simp add: record_term_def Let_def set_property_def)

lemma citationsMap_record_term_other:
  "lc t \<noteq> l \<Longrightarrow> citationsMap (record_term lc c t s) l = citationsMap s l"
  by (simp add: record_term_def Let_def set_property_def)

lemma held_weight_own: "citationsMap s l = Some (Num n) \<Longrightarrow> held_weight s l = n"
  by (simp add: held_weight_def get_property_def weight_or_zero_def weight_int_def)

lemma held_weight_cong: "citationsMap s' l = citationsMap s l \<Longrightarrow> held_weight s' l = held_weight s l"
  by (simp add: held_weight_def get_property_def)

lemma citationsMap_record_term_same:
  assumes "\<not> inherited (lc t)"
  shows "citationsMap (record_term lc c t s) (lc t) = Some (Num (max (held_weight s (lc t)) c))"
proof -
  from assms have k: "lc t \<noteq> proto_key" by (rule not_inherited_proto_key)
  have "to_number (weight_or_zero (get_property (citationsMap s) (lc t)))
          = Num (held_weight s (lc t))"
    using assms
    by (simp add: held_weight_def get_property_def weight_or_zero_def weight_int_def
                  to_number_def split: option.splits jsnum.splits)
  then show ?thesis
    using k by (simp add: record_term_def Let_def set_property_def math_max_def)
qed

lemma dom_record_term:
  "dom (displayMap (record_term lc c t s))
     = (if lc t = proto_key then dom (displayMap s) else insert (lc t) (dom (displayMap s)))"
  "dom (citationsMap (record_term lc c t s))
     = (if lc t = proto_key then dom (citationsMap s) else insert (lc t) (dom (citationsMap s)))"
  by (simp_all add: record_term_def Let_def set_property_def)


subsection \<open>A list of recordings\<close>

lemma displayMap_record_all:
  "displayMap (record_all lc s evs) l =
     (if l = proto_key then displayMap s l
      else case filter (\<lambda>t. lc t = l) (map fst evs) of
             [] \<Rightarrow> displayMap s l
           | ts \<Rightarrow> Some (last ts))"
proof (induction evs rule: rev_induct)
  case Nil
  show ?case by simp
next
  case (snoc ev evs)
  obtain t c where ev: "ev = (t, c)" by (cases ev)
  show ?case
    using snoc.IH by (auto simp: ev displayMap_record_term split: list.splits)
qed


lemma citationsMap_record_all:
  assumes "\<not> inherited l"
  shows "citationsMap (record_all lc s evs) l =
     (if map snd (filter (\<lambda>(t, c). lc t = l) evs) = [] then citationsMap s l
      else Some (Num (Max (insert (held_weight s l)
                            (set (map snd (filter (\<lambda>(t, c). lc t = l) evs)))))))"
proof (induction evs rule: rev_induct)
  case Nil
  show ?case by simp
next
  case (snoc ev evs)
  obtain t c where ev: "ev = (t, c)" by (cases ev)
  define ws where "ws = map snd (filter (\<lambda>(t, c). lc t = l) evs)"
  define b where "b = held_weight s l"
  define s' where "s' = record_all lc s evs"
  have IH: "citationsMap s' l = (if ws = [] then citationsMap s l else Some (Num (Max (insert b (set ws)))))"
    using snoc.IH unfolding ws_def b_def s'_def .
  show ?case
  proof (cases "lc t = l")
    case False
    then have "map snd (filter (\<lambda>(t, c). lc t = l) (evs @ [ev])) = ws"
      by (simp add: ev ws_def)
    moreover have "citationsMap (record_all lc s (evs @ [ev])) l = citationsMap s' l"
      using False by (simp add: ev s'_def citationsMap_record_term_other)
    ultimately show ?thesis
      using IH unfolding b_def by simp
  next
    case True
    with assms have ni: "\<not> inherited (lc t)" by simp
    have new: "map snd (filter (\<lambda>(t, c). lc t = l) (evs @ [ev])) = ws @ [c]"
      using True by (simp add: ev ws_def)
    have prev: "held_weight s' l = Max (insert b (set ws))"
    proof (cases "ws = []")
      case True
      with IH have "citationsMap s' l = citationsMap s l" by simp
      then have "held_weight s' l = b" unfolding b_def by (rule held_weight_cong)
      with True show ?thesis by simp
    next
      case False
      with IH have "citationsMap s' l = Some (Num (Max (insert b (set ws))))" by simp
      then show ?thesis by (rule held_weight_own)
    qed
    have "citationsMap (record_all lc s (evs @ [ev])) l = citationsMap (record_term lc c t s') (lc t)"
      using True by (simp add: ev s'_def)
    also have "\<dots> = Some (Num (max (held_weight s' (lc t)) c))"
      using ni by (rule citationsMap_record_term_same[where lc = lc and t = t])
    also have "held_weight s' (lc t) = Max (insert b (set ws))"
      using prev True by simp
    also have "max (Max (insert b (set ws))) c = Max (insert c (insert b (set ws)))"
      by (subst Max_insert) (simp_all add: max.commute)
    also have "insert c (insert b (set ws)) = insert b (set (ws @ [c]))"
      by auto
    finally show ?thesis
      unfolding new b_def by simp
  qed
qed


lemma trie_record_all:
  "is_terminal (trie (record_all lc s evs)) l \<longleftrightarrow>
     is_terminal (trie s) l \<or> (\<exists>t \<in> fst ` set evs. t \<noteq> [] \<and> lc t = l)"
proof (induction evs rule: rev_induct)
  case Nil
  show ?case by simp
next
  case (snoc ev evs)
  obtain t c where ev: "ev = (t, c)" by (cases ev)
  show ?case
    using snoc.IH by (auto simp: ev trie_record_term is_terminal_insert_trie)
qed

lemma dom_displayMap_record_all:
  "dom (displayMap (record_all lc s evs))
     = dom (displayMap s) \<union> ((\<lambda>ev. lc (fst ev)) ` set evs - {proto_key})"
proof (induction evs arbitrary: s)
  case Nil
  show ?case by simp
next
  case (Cons ev evs)
  obtain t c where ev: "ev = (t, c)" by (cases ev)
  show ?case
    unfolding ev record_all_simps(2) Cons.IH dom_record_term by auto
qed

lemma dom_citationsMap_record_all:
  "dom (citationsMap (record_all lc s evs))
     = dom (citationsMap s) \<union> ((\<lambda>ev. lc (fst ev)) ` set evs - {proto_key})"
proof (induction evs arbitrary: s)
  case Nil
  show ?case by simp
next
  case (Cons ev evs)
  obtain t c where ev: "ev = (t, c)" by (cases ev)
  show ?case
    unfolding ev record_all_simps(2) Cons.IH dom_record_term by auto
qed


lemma set_recordings_cong:
  "set ps' = set ps \<Longrightarrow> set (recordings titles ps') = set (recordings titles ps)"
  by (simp add: recordings_def)

lemma citationsMap_empty_index [simp]: "citationsMap empty_index l = None"
  by (simp add: empty_index_def)

lemma displayMap_empty_index [simp]: "displayMap empty_index l = None"
  by (simp add: empty_index_def)

lemma held_weight_empty_index [simp]: "held_weight empty_index l = 0"
  by (simp add: held_weight_def get_property_def weight_or_zero_def weight_int_def)

lemma citationsMap_load:
  assumes "\<not> inherited l"
  shows "citationsMap (foldl (load_paper lc titles) empty_index ps) l =
     (let W = snd ` {ev \<in> set (recordings titles ps). lc (fst ev) = l}
      in if W = {} then None else Some (Num (Max (insert 0 W))))"
proof -
  define ws where "ws = map snd (filter (\<lambda>(t, c). lc t = l) (recordings titles ps))"
  have W: "snd ` {ev \<in> set (recordings titles ps). lc (fst ev) = l} = set ws"
    unfolding ws_def set_map set_filter by (simp add: case_prod_beta)
  have "citationsMap (foldl (load_paper lc titles) empty_index ps) l =
          (if ws = [] then None else Some (Num (Max (insert 0 (set ws)))))"
    unfolding load_papers_recordings citationsMap_record_all[OF assms] ws_def[symmetric]
    by simp
  also have "\<dots> = (if set ws = {} then None else Some (Num (Max (insert 0 (set ws)))))"
    by simp
  finally show ?thesis
    unfolding Let_def W .
qed

lemma recordings_keywords_nonempty:
  "ev \<in> set (recordings False ps) \<Longrightarrow> fst ev \<noteq> []"
  by (auto simp: recordings_def paper_terms_def split: option.splits)

text \<open>
  The trie of the index is built by inserts alone, and the loader's final state is the loop
  over the documents it ended up with.
\<close>

lemma trie_record_all_build:
  "trie (record_all lc s evs) = foldl (\<lambda>t w. insert_trie lc w t) (trie s) (map fst evs)"
proof (induction evs arbitrary: s)
  case Nil
  show ?case by simp
next
  case (Cons ev evs)
  obtain t c where ev: "ev = (t, c)" by (cases ev)
  show ?case
    unfolding ev record_all_simps(2) Cons.IH by (simp add: trie_record_term)
qed

lemma loader_trie_is_build:
  "trie (foldl (load_paper lc titles) empty_index ps) = build lc (map fst (recordings titles ps))"
  by (simp add: load_papers_recordings trie_record_all_build build_def empty_index_def)

lemma loader_state_is_loop:
  "\<exists>ps. snd (loadAllTermsAndBuildTrie lc titles fetch s) = foldl (load_paper lc titles) s ps"
proof -
  have "(if ps = [] then s else foldl (load_paper lc titles) s ps) = foldl (load_paper lc titles) s ps"
    for ps by simp
  then show ?thesis
    unfolding loadAllTermsAndBuildTrie_def Let_def case_prod_beta snd_conv by blast
qed

text \<open>Nothing is ever stored under \<^verbatim>\<open>__proto__\<close>.\<close>

lemma proto_key_never_stored:
  "displayMap (foldl (load_paper lc titles) empty_index ps) proto_key = None
   \<and> citationsMap (foldl (load_paper lc titles) empty_index ps) proto_key = None"
proof -
  have "proto_key \<notin> dom (displayMap (foldl (load_paper lc titles) empty_index ps))"
    and "proto_key \<notin> dom (citationsMap (foldl (load_paper lc titles) empty_index ps))"
    unfolding load_papers_recordings dom_displayMap_record_all dom_citationsMap_record_all
    by (simp_all add: empty_index_def)
  then show ?thesis by (simp add: domIff)
qed


subsection \<open>The fallback loop\<close>

lemma source_failed_not_delivers: "source_failed r \<Longrightarrow> \<not> delivers r"
  by (cases r) (simp_all add: source_failed_def delivers_def)

lemma try_fallbacks_not_delivers:
  "\<not> delivers (fetch u) \<Longrightarrow>
     try_fallbacks fetch (u # us) = (u # fst (try_fallbacks fetch us), snd (try_fallbacks fetch us))"
  by (cases "fetch u"; cases "try_fallbacks fetch us")
     (auto simp: delivers_def split: json_body.splits)

lemma try_fallbacks_delivers:
  "delivers (fetch u) \<Longrightarrow> fst (try_fallbacks fetch (u # us)) = [u]"
  by (cases "fetch u") (auto simp: delivers_def split: json_body.splits)

lemma try_fallbacks_log:
  "fst (try_fallbacks fetch us) =
     take (Suc (length (takeWhile (\<lambda>u. \<not> delivers (fetch u)) us))) us"
proof (induction us)
  case Nil
  show ?case by simp
next
  case (Cons u us)
  show ?case
  proof (cases "delivers (fetch u)")
    case True
    then show ?thesis by (simp add: try_fallbacks_delivers del: try_fallbacks.simps)
  next
    case False
    then show ?thesis
      using Cons.IH by (simp add: try_fallbacks_not_delivers del: try_fallbacks.simps)
  qed
qed

lemma try_fallbacks_all_fail:
  "\<forall>u \<in> set us. \<not> delivers (fetch u) \<Longrightarrow> try_fallbacks fetch us = (us, [])"
  by (induction us) (simp_all add: try_fallbacks_not_delivers del: try_fallbacks.simps(2))




section \<open>Lemmas about the suggestion list\<close>

lemma by_citations_counts:
  "citations a = Count x \<Longrightarrow> citations b = Count y \<Longrightarrow> by_citations a b = Num (y - x)"
  by (simp add: by_citations_def)

lemma js_insert_insort:
  assumes "\<forall>y \<in> set (x # xs). citations y \<noteq> ProtoObject"
  shows "js_insert by_citations x xs = insort_key (\<lambda>x. - weight_int (citations x)) x xs"
  using assms
proof (induction xs)
  case Nil
  show ?case by simp
next
  case (Cons y ys)
  from Cons.prems obtain a b where ab: "citations x = Count a" "citations y = Count b"
    by (cases "citations x"; cases "citations y") auto
  from Cons have "js_insert by_citations x ys = insort_key (\<lambda>x. - weight_int (citations x)) x ys"
    by simp
  then show ?case
    by (simp add: by_citations_counts[OF ab] ab sort_compare_def weight_int_def)
qed

lemma js_sort_sort_key:
  assumes "\<forall>y \<in> set xs. citations y \<noteq> ProtoObject"
  shows "js_sort by_citations xs = sort_key (\<lambda>x. - weight_int (citations x)) xs"
  using assms
proof (induction xs)
  case Nil
  show ?case by (simp add: js_sort_def)
next
  case (Cons x xs)
  then have IH: "js_sort by_citations xs = sort_key (\<lambda>x. - weight_int (citations x)) xs"
    by simp
  have "js_sort by_citations (x # xs) = js_insert by_citations x (js_sort by_citations xs)"
    by (simp add: js_sort_def)
  also have "\<dots> = insort_key (\<lambda>x. - weight_int (citations x)) x
                     (sort_key (\<lambda>x. - weight_int (citations x)) xs)"
    unfolding IH using Cons.prems by (intro js_insert_insort) simp
  finally show ?case by simp
qed

lemma suggestion_list_empty_index [simp]: "suggestion_list lc empty_index q = []"
  by (simp add: suggestion_list_def empty_index_def js_sort_def)

lemma on_input_empty_index: "on_input lc empty_index u = clearSuggestions u"
  by (simp add: on_input_def renderSuggestions_def clearSuggestions_def Let_def)

lemma suggestions_terminal: "k \<in> set (suggestions lc pfx limit t) \<Longrightarrow> is_terminal t k"
  using set_all_matches[of t "lc pfx"] by (auto simp: suggestions_take dest: in_set_takeD)

lemma own_weight_numeric: "citationsMap s k = Some v \<Longrightarrow> citations (resolve s k) \<noteq> ProtoObject"
  by (cases v) (simp_all add: resolve_def get_property_def weight_or_zero_def)

lemma loader_weights_numeric:
  assumes "\<forall>ev \<in> set (recordings titles ps). lc (fst ev) \<noteq> proto_key"
    and "is_terminal (trie (foldl (load_paper lc titles) empty_index ps)) k"
  shows "citations (resolve (foldl (load_paper lc titles) empty_index ps) k) \<noteq> ProtoObject"
proof -
  from assms(2) obtain ev where ev: "ev \<in> set (recordings titles ps)" "lc (fst ev) = k"
    by (auto simp: load_papers_recordings trie_record_all empty_index_def)
  with assms(1) have "k \<noteq> proto_key" by blast
  with ev have "k \<in> dom (citationsMap (foldl (load_paper lc titles) empty_index ps))"
    unfolding load_papers_recordings dom_citationsMap_record_all by auto
  then obtain v where "citationsMap (foldl (load_paper lc titles) empty_index ps) k = Some v"
    by blast
  then show ?thesis by (rule own_weight_numeric)
qed

text \<open>
  When no recorded term is \<^verbatim>\<open>__proto__\<close>, every weight in the suggestion list is a number
  and the list is ranked: descending, stable, at most 8 entries.
\<close>

lemma suggestion_list_ranked_without_proto_key:
  assumes "\<forall>ev \<in> set (recordings titles ps). lc (fst ev) \<noteq> proto_key"
    and "s = foldl (load_paper lc titles) empty_index ps"
  shows "(\<forall>x \<in> set (suggestion_list lc s pfx). citations x \<noteq> ProtoObject)
   \<and> sorted_wrt (\<lambda>a b. weight_int (citations a) \<ge> weight_int (citations b))
        (suggestion_list lc s pfx)
   \<and> (\<forall>w. filter (\<lambda>x. citations x = w) (suggestion_list lc s pfx)
           = filter (\<lambda>x. citations x = w) (map (resolve s) (suggestions lc pfx 8 (trie s))))
   \<and> length (suggestion_list lc s pfx) \<le> 8"
proof -
  let ?f = "\<lambda>x. - weight_int (citations x)"
  let ?xs = "map (resolve s) (suggestions lc pfx 8 (trie s))"
  have num: "\<forall>y \<in> set ?xs. citations y \<noteq> ProtoObject"
    using loader_weights_numeric[OF assms(1)] suggestions_terminal
    unfolding assms(2) by fastforce
  then have eq: "suggestion_list lc s pfx = sort_key ?f ?xs"
    by (simp add: suggestion_list_def js_sort_sort_key)
  have 1: "\<forall>x \<in> set (suggestion_list lc s pfx). citations x \<noteq> ProtoObject"
    using num unfolding eq by simp
  have "sorted (map ?f (sort_key ?f ?xs))"
    by (rule sorted_sort_key)
  then have 2: "sorted_wrt (\<lambda>a b. weight_int (citations a) \<ge> weight_int (citations b))
                  (suggestion_list lc s pfx)"
    unfolding eq by (simp add: sorted_wrt_map)
  have 3: "filter (\<lambda>x. citations x = w) (suggestion_list lc s pfx)
             = filter (\<lambda>x. citations x = w) ?xs" for w
  proof -
    have st: "filter (\<lambda>x. ?f x = k) (sort_key ?f ?xs) = filter (\<lambda>x. ?f x = k) ?xs" for k
      by (rule sort_key_stable)
    have nest: "filter (\<lambda>x. citations x = w) zs
                  = filter (\<lambda>x. citations x = w) (filter (\<lambda>x. ?f x = - weight_int w) zs)"
      for zs :: "suggestion list"
      by (induction zs) auto
    have "filter (\<lambda>x. citations x = w) (sort_key ?f ?xs)
            = filter (\<lambda>x. citations x = w) (filter (\<lambda>x. ?f x = - weight_int w) (sort_key ?f ?xs))"
      by (rule nest)
    also have "\<dots> = filter (\<lambda>x. citations x = w) (filter (\<lambda>x. ?f x = - weight_int w) ?xs)"
      by (simp only: st)
    also have "\<dots> = filter (\<lambda>x. citations x = w) ?xs"
      by (rule nest[symmetric])
    finally show ?thesis unfolding eq .
  qed
  have "length (suggestions lc pfx 8 (trie s)) \<le> 8"
    by (simp add: suggestions_take)
  then have 4: "length (suggestion_list lc s pfx) \<le> 8"
    unfolding eq by simp
  from 1 2 3 4 show ?thesis by blast
qed



section \<open>The specification's claims\<close>


subsection \<open>C1: the suggestion list and the weights it is sorted by\<close>

text \<open>
  C1 says that the list \<^verbatim>\<open>renderSuggestions\<close> builds is ordered by weight descending
  for every state the loader can build. With the keyword \<^verbatim>\<open>__proto__\<close> in the corpus
  the trie has the term, but neither index object has an own property for it: both
  assignments go to the setter of \<^verbatim>\<open>Object.prototype\<close> and are dropped. The lookup
  \<^verbatim>\<open>citationsMap[k] || 0\<close> then yields \<^verbatim>\<open>Object.prototype\<close>, the comparator returns
  \<^verbatim>\<open>NaN\<close> wherever that entry takes part, and the entries with 10 and 50 citations stay
  in the order of the enumeration: 10 before 50. The trie's own \<^verbatim>\<open>children\<close> objects are
  created with \<^verbatim>\<open>Object.create(null)\<close> and do not have the problem.
\<close>

theorem proto_key_breaks_ranking:
  "map citations
     (suggestion_list ascii_lower
        (snd (loadAllTermsAndBuildTrie ascii_lower False (serve proto_corpus) empty_index))
        (str ''_''))
     = [Count 10, ProtoObject, Count 50]
   \<and> map term_display
       (suggestion_list ascii_lower
          (snd (loadAllTermsAndBuildTrie ascii_lower False (serve proto_corpus) empty_index))
          (str ''_''))
     = [str ''_1'', str ''[object Object]'', str ''_b'']"
  by (simp add: trie_eval loader_eval ranker_eval proto_corpus_def serve_def)

text \<open>
  For a corpus without that keyword the list is ranked as C1 says
  (\<open>suggestion_list_ranked_without_proto_key\<close> above), and it is the list the panel shows.
\<close>

lemma rendered_items:
  "items (renderSuggestions lc s pfx u) = suggestion_list lc s pfx"
  by (simp add: renderSuggestions_def clearSuggestions_def Let_def)

lemma scenario_ranked:
  "map citations
     (suggestion_list ascii_lower (foldl (load_paper ascii_lower False) empty_index scenario_corpus)
        (str ''trans'')) = [Count 50, Count 10]"
  by (simp add: trie_eval loader_eval ranker_eval scenario_corpus_def)


subsection \<open>C2: which casing the index keeps\<close>

text \<open>
  The claim says the first recording of a normalized term fixes its display string. The
  loader assigns \<^verbatim>\<open>displayMap[l] = t\<close> on every recording, so a later casing replaces an
  earlier one: with \<open>Transformer\<close> recorded first and \<open>TRANSFORMER\<close> second, the
  index holds \<open>TRANSFORMER\<close>.
\<close>

theorem display_first_writer_counterexample:
  "displayMap (snd (loadAllTermsAndBuildTrie ascii_lower False (serve recased_corpus) empty_index))
     (ascii_lower (str ''Transformer'')) = Some (str ''TRANSFORMER'')
   \<and> str ''TRANSFORMER'' \<noteq> str ''Transformer''"
  by (simp add: trie_eval loader_eval recased_corpus_def serve_def)

text \<open>
  C2, as the code has it. When a normalized term \<open>l\<close> other than \<^verbatim>\<open>__proto__\<close> is
  recorded during corpus loading, once or several times and in whatever casings, the
  display string that a lookup of \<open>l\<close> returns afterwards is the one of the last
  recording.
\<close>

theorem display_last_writer_wins:
  assumes "ts = filter (\<lambda>t. lc t = l) (map fst (recordings titles ps))"
    and "ts \<noteq> []"
    and "l \<noteq> proto_key"
  shows "get_property (displayMap (foldl (load_paper lc titles) empty_index ps)) l = Own (last ts)"
proof -
  have "displayMap (foldl (load_paper lc titles) empty_index ps) l = Some (last ts)"
    using assms
    by (simp add: load_papers_recordings displayMap_record_all split: list.splits)
  then show ?thesis by (simp add: get_property_def)
qed

theorem display_last_writer_wins_witness:
  "get_property (displayMap (foldl (load_paper ascii_lower False) empty_index recased_corpus))
     (str ''transformer'') = Own (str ''TRANSFORMER'')"
  using display_last_writer_wins[OF refl, where lc = ascii_lower and l = "str ''transformer''"
          and titles = False and ps = recased_corpus]
  by (simp add: trie_eval loader_eval recased_corpus_def)


subsection \<open>C3: every inserted term is found under each of its prefixes\<close>

text \<open>
  C3. Let \<open>T\<close> be one of the inserted terms (not the empty string, whose insertion does
  nothing) and \<open>p\<close> a case-insensitive prefix of \<open>T\<close>. If \<open>limit\<close> is at least the
  number of inserted terms that have \<open>p\<close> as a case-insensitive prefix, the suggestions for
  \<open>p\<close> contain the lower-cased \<open>T\<close>.
\<close>

theorem prefix_matches_complete:
  assumes "T \<in> set ws" and "T \<noteq> []"
    and "prefix (lc p) (lc T)"
    and "int (length (filter (\<lambda>w. prefix (lc p) (lc w)) ws)) \<le> limit"
  shows "lc T \<in> set (suggestions lc p limit (build lc ws))"
proof -
  have "length (all_matches (build lc ws) (lc p)) \<le> nat limit"
    using assms(4) card_matches_le[of "lc p" ws lc]
    by (simp add: length_all_matches_build)
  then have "suggestions lc p limit (build lc ws) = all_matches (build lc ws) (lc p)"
    by (simp add: suggestions_take)
  moreover have "lc T \<in> set (all_matches (build lc ws) (lc p))"
    using assms(1-3) by (auto simp: set_all_matches is_terminal_build)
  ultimately show ?thesis by simp
qed

theorem prefix_matches_complete_witness:
  "ascii_lower (str ''Transformer'')
     \<in> set (suggestions ascii_lower (str ''TRANS'') 2
              (build ascii_lower [str ''Transformer'', str ''transformers'', str ''graph'']))"
  by (rule prefix_matches_complete) (simp_all add: trie_eval)


subsection \<open>C4: the suggestions are bounded and ordered\<close>

text \<open>
  The claim says the entries come in code-point order. The keys of a node are sorted by
  \<^verbatim>\<open>sort()\<close> without a comparator, which compares UTF-16 code units: U+1F600, stored as
  the surrogate pair D83D DE00, comes before U+FF41 although its code point is larger.
\<close>

theorem code_point_order_counterexample:
  "suggestions ascii_lower [] 10 (build ascii_lower [[0xFF41], [0x1F600]]) = [[0x1F600], [0xFF41]]
   \<and> \<not> sorted [[0x1F600], [0xFF41 :: nat]]"
  by (simp add: trie_eval)

text \<open>
  C4, as the code has it. For every prefix \<open>p\<close> and every integer \<open>limit\<close>, the
  suggestions are at most \<open>limit\<close> entries, each an extension of the lower-cased \<open>p\<close>;
  the suffixes after \<open>p\<close> come in non-decreasing lexicographic order, characters compared
  by their UTF-16 code units, which is code-point order whenever every character of the
  result lies in the Basic Multilingual Plane; and the result is empty when
  \<open>limit \<le> 0\<close> or when no inserted term has \<open>p\<close> as a prefix.
\<close>

theorem prefix_matches_bounded_ordered:
  "(let r = suggestions lc p limit (build lc ws);
        suffixes = map (drop (length (lc p))) r
    in (0 \<le> limit \<longrightarrow> int (length r) \<le> limit)
     \<and> (limit \<le> 0 \<longrightarrow> r = [])
     \<and> ((\<forall>w \<in> set ws. w = [] \<or> \<not> prefix (lc p) (lc w)) \<longrightarrow> r = [])
     \<and> (\<forall>x \<in> set r. prefix (lc p) x)
     \<and> sorted_wrt utf16_le suffixes
     \<and> ((\<forall>x \<in> set r. \<forall>c \<in> set x. c < 0x10000) \<longrightarrow> sorted suffixes))"
proof -
  define r where "r = suggestions lc p limit (build lc ws)"
  define suffixes where "suffixes = map (drop (length (lc p))) r"
  have r: "r = take (nat limit) (all_matches (build lc ws) (lc p))"
    by (simp add: r_def suggestions_take)
  have 1: "0 \<le> limit \<longrightarrow> int (length r) \<le> limit"
    by (auto simp: r)
  have 2: "limit \<le> 0 \<longrightarrow> r = []"
    by (simp add: r)
  have 3: "(\<forall>w \<in> set ws. w = [] \<or> \<not> prefix (lc p) (lc w)) \<longrightarrow> r = []"
  proof
    assume "\<forall>w \<in> set ws. w = [] \<or> \<not> prefix (lc p) (lc w)"
    then have "set (all_matches (build lc ws) (lc p)) = {}"
      by (auto simp: set_all_matches is_terminal_build)
    then show "r = []" by (simp add: r)
  qed
  have 4: "\<forall>x \<in> set r. prefix (lc p) x"
    using set_all_matches[of "build lc ws" "lc p"] by (auto simp: r dest: in_set_takeD)
  have strict: "sorted_wrt utf16_less suffixes"
    unfolding suffixes_def r
    by (rule sorted_wrt_take_drop) (rule sorted_all_matches[OF wf_build])
  have 5: "sorted_wrt utf16_le suffixes"
    using strict by (rule sorted_wrt_mono_rel[rotated]) (rule utf16_less_le)
  have 6: "(\<forall>x \<in> set r. \<forall>c \<in> set x. c < 0x10000) \<longrightarrow> sorted suffixes"
  proof
    assume bmp: "\<forall>x \<in> set r. \<forall>c \<in> set x. c < 0x10000"
    have "\<forall>c \<in> set s. c < 0x10000" if "s \<in> set suffixes" for s
      using that bmp by (auto simp: suffixes_def dest: in_set_dropD)
    then show "sorted suffixes"
      using 5 by (auto intro!: sorted_wrt_mono_rel[of suffixes utf16_le "(\<le>)"] utf16_le_bmp)
  qed
  from 1 2 3 4 5 6 show ?thesis
    unfolding Let_def r_def[symmetric] suffixes_def[symmetric] by blast
qed

theorem prefix_matches_bounded_ordered_witness:
  "suggestions ascii_lower (str ''TR'') 2
       (build ascii_lower [str ''tree'', str ''Trie'', str ''graph'', str ''transformer''])
     = [str ''transformer'', str ''tree'']
   \<and> sorted [str ''ansformer'', str ''ee'']
   \<and> suggestions ascii_lower (str ''TR'') 0
       (build ascii_lower [str ''tree'', str ''Trie'', str ''graph'', str ''transformer'']) = []
   \<and> suggestions ascii_lower (str ''transformers'') 2
       (build ascii_lower [str ''tree'', str ''Trie'', str ''graph'', str ''transformer'']) = []"
  using prefix_matches_bounded_ordered[where limit = 2 and lc = ascii_lower and p = "str ''TR''"
          and ws = "[str ''tree'', str ''Trie'', str ''graph'', str ''transformer'']"]
        prefix_matches_bounded_ordered[where limit = 0 and lc = ascii_lower and p = "str ''TR''"
          and ws = "[str ''tree'', str ''Trie'', str ''graph'', str ''transformer'']"]
        prefix_matches_bounded_ordered[where limit = 2 and lc = ascii_lower and p = "str ''transformers''"
          and ws = "[str ''tree'', str ''Trie'', str ''graph'', str ''transformer'']"]
  by (simp add: trie_eval)


subsection \<open>C5: the weight of a term and the largest citation count recorded for it\<close>

text \<open>
  C5 says that for every normalized term the index holds the largest citation count
  recorded for it, whatever the order of the documents. For the term \<^verbatim>\<open>constructor\<close> the
  first \<^verbatim>\<open>citationsMap[l] || 0\<close> reads the inherited function \<^verbatim>\<open>Object\<close>, so
  \<^verbatim>\<open>Math.max\<close> stores \<^verbatim>\<open>NaN\<close>; the next recording reads \<^verbatim>\<open>NaN || 0\<close> and stores its own
  count. One recording of 100 leaves \<^verbatim>\<open>NaN\<close> (shown as 0 citations); 100 then 10 leaves
  10; 10 then 100 leaves 100.
\<close>

theorem constructor_weight_not_max:
  "citationsMap
     (snd (loadAllTermsAndBuildTrie ascii_lower False (serve [constructor_100]) empty_index))
     (str ''constructor'') = Some NaN
   \<and> citations
       (resolve (snd (loadAllTermsAndBuildTrie ascii_lower False (serve [constructor_100]) empty_index))
          (str ''constructor'')) = Count 0
   \<and> citationsMap
       (snd (loadAllTermsAndBuildTrie ascii_lower False
               (serve [constructor_100, constructor_10]) empty_index))
       (str ''constructor'') = Some (Num 10)
   \<and> citationsMap
       (snd (loadAllTermsAndBuildTrie ascii_lower False
               (serve [constructor_10, constructor_100]) empty_index))
       (str ''constructor'') = Some (Num 100)"
  by (simp add: trie_eval loader_eval ranker_eval constructor_100_def constructor_10_def serve_def)

text \<open>
  For a term that is not the name of a property of \<^verbatim>\<open>Object.prototype\<close> the weight is the
  maximum: let \<open>ws\<close> be the citation counts recorded for \<open>l\<close>, at least one, none
  negative. Then the index holds \<open>Max ws\<close>, loading the documents in another order gives
  the same weight, and no recording lowers the weight held for \<open>l\<close>.
\<close>

lemma weight_is_max_unless_inherited:
  assumes "\<not> inherited l"
    and "ws = map snd (filter (\<lambda>(t, c). lc t = l) (recordings titles ps))"
    and "ws \<noteq> []"
    and "\<forall>w \<in> set ws. 0 \<le> w"
  shows "citationsMap (foldl (load_paper lc titles) empty_index ps) l = Some (Num (Max (set ws)))
       \<and> (\<forall>ps'. mset ps' = mset ps \<longrightarrow>
             citationsMap (foldl (load_paper lc titles) empty_index ps') l
               = citationsMap (foldl (load_paper lc titles) empty_index ps) l)
       \<and> (\<forall>c t s. held_weight s l \<le> held_weight (record_term lc c t s) l)"
proof (intro conjI allI impI)
  from assms(3) obtain w where w: "w \<in> set ws" by (cases ws) auto
  have "w \<le> Max (set ws)"
    using w by (intro Max_ge) simp_all
  moreover have "0 \<le> w"
    using w assms(4) by blast
  ultimately have "0 \<le> Max (set ws)"
    by linarith
  then have "Max (insert 0 (set ws)) = Max (set ws)"
    using w by (subst Max_insert) auto
  moreover have "citationsMap (foldl (load_paper lc titles) empty_index ps) l =
          (if ws = [] then None else Some (Num (Max (insert 0 (set ws)))))"
    unfolding load_papers_recordings citationsMap_record_all[OF assms(1)] assms(2)[symmetric]
    by simp
  ultimately show "citationsMap (foldl (load_paper lc titles) empty_index ps) l
                     = Some (Num (Max (set ws)))"
    using assms(3) by simp
next
  fix ps' assume "mset ps' = mset ps"
  then have "set ps' = set ps"
    by (rule mset_eq_setD)
  then have "set (recordings titles ps') = set (recordings titles ps)"
    by (rule set_recordings_cong)
  then show "citationsMap (foldl (load_paper lc titles) empty_index ps') l
               = citationsMap (foldl (load_paper lc titles) empty_index ps) l"
    by (simp add: citationsMap_load[OF assms(1)])
next
  fix c t s
  show "held_weight s l \<le> held_weight (record_term lc c t s) l"
  proof (cases "lc t = l")
    case False
    then have "citationsMap (record_term lc c t s) l = citationsMap s l"
      by (rule citationsMap_record_term_other)
    then have "held_weight (record_term lc c t s) l = held_weight s l"
      by (rule held_weight_cong)
    then show ?thesis by simp
  next
    case True
    with assms(1) have "\<not> inherited (lc t)" by simp
    then have "citationsMap (record_term lc c t s) (lc t) = Some (Num (max (held_weight s (lc t)) c))"
      by (rule citationsMap_record_term_same)
    then have "held_weight (record_term lc c t s) (lc t) = max (held_weight s (lc t)) c"
      by (rule held_weight_own)
    with True show ?thesis by simp
  qed
qed

lemma recased_weight:
  "citationsMap (foldl (load_paper ascii_lower False) empty_index recased_corpus) (str ''transformer'')
     = Some (Num 50)"
  by (simp add: trie_eval loader_eval recased_corpus_def)


subsection \<open>C6: terminal nodes and index keys\<close>

text \<open>
  C6 says that the strings spelled by terminal nodes are exactly the keys of the index.
  The first revision of the loader breaks this on a title that starts or ends with white
  space: the split yields an empty token, \<^verbatim>\<open>trie.insert('')\<close> returns at once, and the two
  index objects still get the key \<open>''\<close>. The keyword callback of the same loop guards
  against the empty string; the title callback does not.
\<close>

theorem index_key_without_terminal:
  "displayMap (snd (loadAllTermsAndBuildTrie ascii_lower True (serve padded_title_corpus) empty_index)) []
     = Some []
   \<and> citationsMap (snd (loadAllTermsAndBuildTrie ascii_lower True (serve padded_title_corpus) empty_index)) []
     = Some (Num 1)
   \<and> \<not> is_terminal (trie (snd (loadAllTermsAndBuildTrie ascii_lower True (serve padded_title_corpus) empty_index))) []"
  by (simp add: trie_eval loader_eval padded_title_corpus_def serve_def)

text \<open>
  With the title block commented out, as in the second revision, the keys of both index
  objects are the terminal strings other than \<^verbatim>\<open>__proto__\<close>.
\<close>

lemma keyword_only_index_matches_trie:
  "{l. is_terminal (trie (foldl (load_paper lc False) empty_index ps)) l} - {proto_key}
     = dom (displayMap (foldl (load_paper lc False) empty_index ps))
   \<and> dom (displayMap (foldl (load_paper lc False) empty_index ps))
     = dom (citationsMap (foldl (load_paper lc False) empty_index ps))"
  using recordings_keywords_nonempty[of _ ps]
  by (auto simp: load_papers_recordings trie_record_all dom_displayMap_record_all
                 dom_citationsMap_record_all empty_index_def)


subsection \<open>C7: fallback sources, and the empty index\<close>

text \<open>
  C7. If the request to the primary source is rejected or answered with a non-success
  status, the loader requests the fallback sources in the order of the list, up to and
  including the first that delivers documents. If every source fails, the loader has
  requested all of them, the state is still the empty one, every suggestion list is empty
  and the input handler only clears the panel.
\<close>

theorem fallbacks_in_order_then_empty:
  assumes "source_failed (fetch (API_ALL titles))"
  shows "fst (loadAllTermsAndBuildTrie lc titles fetch s) =
           API_ALL titles # take (Suc (length (takeWhile (\<lambda>u. \<not> delivers (fetch u)) FALLBACK_PAPERS)))
                          FALLBACK_PAPERS
       \<and> ((\<forall>u \<in> set FALLBACK_PAPERS. source_failed (fetch u)) \<longrightarrow>
            loadAllTermsAndBuildTrie lc titles fetch empty_index
              = (API_ALL titles # FALLBACK_PAPERS, empty_index)
          \<and> (\<forall>q. suggestion_list lc (snd (loadAllTermsAndBuildTrie lc titles fetch empty_index)) q = [])
          \<and> (\<forall>u. on_input lc (snd (loadAllTermsAndBuildTrie lc titles fetch empty_index)) u
                 = clearSuggestions u))"
proof -
  have p0: "(case fetch (API_ALL titles) of NetworkError \<Rightarrow> []
             | Response ok body \<Rightarrow>
                 if ok then (case body of Documents ps \<Rightarrow> ps | Malformed \<Rightarrow> []) else []) = []"
    using assms by (cases "fetch (API_ALL titles)") (simp_all add: source_failed_def)
  have load: "loadAllTermsAndBuildTrie lc titles fetch s' =
          (API_ALL titles # fst (try_fallbacks fetch FALLBACK_PAPERS),
           if snd (try_fallbacks fetch FALLBACK_PAPERS) = [] then s'
           else foldl (load_paper lc titles) s' (snd (try_fallbacks fetch FALLBACK_PAPERS)))" for s'
    unfolding loadAllTermsAndBuildTrie_def p0 by (simp add: case_prod_beta)
  have 1: "fst (loadAllTermsAndBuildTrie lc titles fetch s) =
           API_ALL titles # take (Suc (length (takeWhile (\<lambda>u. \<not> delivers (fetch u)) FALLBACK_PAPERS)))
                          FALLBACK_PAPERS"
    unfolding load by (simp add: try_fallbacks_log)
  have 2: "loadAllTermsAndBuildTrie lc titles fetch empty_index = (API_ALL titles # FALLBACK_PAPERS, empty_index)"
    if "\<forall>u \<in> set FALLBACK_PAPERS. source_failed (fetch u)"
  proof -
    from that have "\<forall>u \<in> set FALLBACK_PAPERS. \<not> delivers (fetch u)"
      by (blast dest: source_failed_not_delivers)
    then have "try_fallbacks fetch FALLBACK_PAPERS = (FALLBACK_PAPERS, [])"
      by (rule try_fallbacks_all_fail)
    then show ?thesis unfolding load by simp
  qed
  show ?thesis
    using 1 2 by (simp add: on_input_empty_index)
qed

theorem fallbacks_in_order_then_empty_witness:
  "fst (loadAllTermsAndBuildTrie ascii_lower False second_fallback_only empty_index)
     = [''/api/all'', ''/papers'', ''backend/papers.json'']
   \<and> loadAllTermsAndBuildTrie ascii_lower False (\<lambda>url. NetworkError) empty_index
     = ([''/api/all'', ''/papers'', ''backend/papers.json'', ''papers.json''], empty_index)
   \<and> suggestion_list ascii_lower
       (snd (loadAllTermsAndBuildTrie ascii_lower False (\<lambda>url. NetworkError) empty_index))
       (str ''anything'') = []"
  using fallbacks_in_order_then_empty[where fetch = second_fallback_only and lc = ascii_lower
          and titles = False and s = empty_index]
        fallbacks_in_order_then_empty[where fetch = "\<lambda>url. NetworkError" and lc = ascii_lower
          and titles = False and s = empty_index]
  by (simp add: source_failed_def delivers_def second_fallback_only_def API_ALL_def
                FALLBACK_PAPERS_def)


subsection \<open>C8: inserting the empty string\<close>

text \<open>
  The claim says that inserting a blank string changes nothing. The guard of
  \<^verbatim>\<open>insert\<close> is \<^verbatim>\<open>if (!word) return\<close>, which only the empty string meets: two spaces are
  inserted as a term of two characters.
\<close>

theorem blank_insert_counterexample:
  "trim (str ''  '') = []
   \<and> insert_trie ascii_lower (str ''  '') empty_trie
     = TrieNode False [(32, TrieNode False [(32, TrieNode True [])])]
   \<and> insert_trie ascii_lower (str ''  '') empty_trie \<noteq> empty_trie"
  by (simp add: trie_eval loader_eval)

text \<open>
  C8, as the code has it. Inserting the empty string leaves the trie as it was. Any other
  word, white space included, is inserted: afterwards the terminal strings are those of
  before and the lower-cased word.
\<close>

theorem insert_empty_noop:
  "insert_trie lc [] t = t
   \<and> (\<forall>l. is_terminal (insert_trie lc w t) l
          \<longleftrightarrow> (w \<noteq> [] \<and> l = lc w) \<or> is_terminal t l)"
  by (simp add: insert_trie_def is_terminal_ins)

theorem insert_empty_noop_witness:
  "insert_trie ascii_lower [] (build ascii_lower [str ''Trie'']) = build ascii_lower [str ''Trie'']
   \<and> is_terminal (insert_trie ascii_lower (str ''  '') (build ascii_lower [str ''Trie''])) (str ''  '')
   \<and> is_terminal (insert_trie ascii_lower (str ''  '') (build ascii_lower [str ''Trie''])) (str ''trie'')"
  using insert_empty_noop[where lc = ascii_lower and t = "build ascii_lower [str ''Trie'']"
          and w = "str ''  ''"]
  by (simp add: trie_eval is_terminal_def)


subsection \<open>C9: the arrow keys cycle through the entries\<close>




subsection \<open>C10: arrow-up with no entry selected\<close>

text \<open>
  C10. While the panel shows \<open>n \<ge> 1\<close> entries and none is selected (the index is
  \<open>-1\<close>), arrow-up selects the last entry, \<open>n - 1\<close>.
\<close>

theorem arrow_up_from_none:
  assumes "panel_display u \<noteq> ''none''"
    and "length (items u) = n" and "1 \<le> n"
    and "currentSelectionIndex u = - 1"
  shows "currentSelectionIndex (keydown ArrowUp u) = int n - 1"
  using assms by (simp add: keydown_def Let_def)

theorem arrow_up_from_none_witness:
  "currentSelectionIndex (keydown ArrowUp (three_shown\<lparr>currentSelectionIndex := - 1\<rparr>)) = 2"
  using arrow_up_from_none[where u = "three_shown\<lparr>currentSelectionIndex := - 1\<rparr>" and n = 3]
  by (simp add: three_shown_def)

end
